theory Spec2Isabelle
  imports Complex_Main "HOL-Library.Log_Nat"
begin

section \<open>Python values used by \<open>main.py\<close>\<close>

text \<open>
  A Python \<open>float\<close> is an IEEE double: a finite number, one of the two infinities, or
  NaN. A finite float is modelled by the real number it denotes; the sign of zero is not
  modelled. The type has more finite values than there are doubles, so a statement about
  every \<open>Num x\<close> covers every finite double.
\<close>

datatype pyfloat = Num real | PosInf | NegInf | NaN

subsection \<open>Rounding to a double\<close>

text \<open>
  The binary exponent of a positive real \<open>a\<close>: the integer \<open>e\<close> with
  \<open>2 ^ e <= a < 2 ^ (e + 1)\<close>, computed from the bit length of an integer.
\<close>

definition float_exponent :: "real \<Rightarrow> int" where
  "float_exponent a = (if 1 \<le> a then bitlen \<lfloor>a\<rfloor> - 1 else - bitlen (\<lceil>1 / a\<rceil> - 1))"

text \<open>Rounding to the nearest integer, a tie going to the even neighbour.\<close>

definition round_half_even :: "real \<Rightarrow> int" where
  "round_half_even m =
     (let f = \<lfloor>m\<rfloor>; d = m - of_int f
      in if d < 1 / 2 then f else if 1 / 2 < d then f + 1 else if even f then f else f + 1)"

text \<open>
  The spacing of the doubles around \<open>a\<close>: 53 significant bits, and the fixed spacing
  \<open>2 ^ -1074\<close> of the subnormal numbers below \<open>2 ^ -1022\<close>.
\<close>

definition float_quantum :: "real \<Rightarrow> real" where
  "float_quantum a = 2 powi (max (float_exponent a) (- 1022) - 52)"

definition round_magnitude :: "real \<Rightarrow> real" where
  "round_magnitude a = of_int (round_half_even (a / float_quantum a)) * float_quantum a"

text \<open>
  The result of a float operation whose exact value is \<open>x\<close>: the nearest double, ties to
  even, and an infinity when that reaches \<open>2 ^ 1024\<close>. The largest double is
  \<open>2 ^ 1024 - 2 ^ 971\<close>, so every \<open>x >= 2 ^ 1024 - 2 ^ 970\<close> becomes \<open>inf\<close>.
\<close>

definition round_double :: "real \<Rightarrow> pyfloat" where
  "round_double x =
     (let y = round_magnitude \<bar>x\<bar>
      in if 2 ^ 1024 \<le> y then (if 0 < x then PosInf else NegInf) else Num (sgn x * y))"

subsection \<open>Comparisons and division\<close>

text \<open>The comparison \<open>a < b\<close> on floats: every comparison with NaN is false.\<close>

fun float_lt :: "pyfloat \<Rightarrow> pyfloat \<Rightarrow> bool" where
  "float_lt NaN b = False"
| "float_lt a NaN = False"
| "float_lt (Num x) (Num y) = (x < y)"
| "float_lt (Num x) PosInf = True"
| "float_lt (Num x) NegInf = False"
| "float_lt PosInf b = False"
| "float_lt NegInf NegInf = False"
| "float_lt NegInf b = True"

text \<open>The comparison \<open>a <= b\<close> on floats.\<close>

fun float_le :: "pyfloat \<Rightarrow> pyfloat \<Rightarrow> bool" where
  "float_le NaN b = False"
| "float_le a NaN = False"
| "float_le (Num x) (Num y) = (x \<le> y)"
| "float_le (Num x) PosInf = True"
| "float_le (Num x) NegInf = False"
| "float_le PosInf PosInf = True"
| "float_le PosInf b = False"
| "float_le NegInf b = True"

text \<open>The comparison \<open>a > b\<close> is \<open>b < a\<close>.\<close>

definition float_gt :: "pyfloat \<Rightarrow> pyfloat \<Rightarrow> bool" where
  "float_gt a b = float_lt b a"

text \<open>The exceptions that the built-in operations of the program can raise.\<close>

datatype py_error = TypeError | ValueError | OverflowError | ZeroDivisionError

text \<open>
  True division \<open>a / b\<close> on floats. Python tests the divisor first and raises
  \<open>ZeroDivisionError\<close> when it is zero, whatever the dividend is; all other cases
  follow IEEE arithmetic: the quotient of two finite floats is rounded to a double and
  overflows to an infinity without an exception.
\<close>

fun py_truediv :: "pyfloat \<Rightarrow> pyfloat \<Rightarrow> py_error + pyfloat" where
  "py_truediv a (Num y) =
     (if y = 0 then Inl ZeroDivisionError
      else case a of
        Num x \<Rightarrow> Inr (round_double (x / y))
      | PosInf \<Rightarrow> Inr (if 0 < y then PosInf else NegInf)
      | NegInf \<Rightarrow> Inr (if 0 < y then NegInf else PosInf)
      | NaN \<Rightarrow> Inr NaN)"
| "py_truediv a NaN = Inr NaN"
| "py_truediv (Num x) b = Inr (Num 0)"
| "py_truediv a b = Inr NaN"

text \<open>
  The values that an event of the user interface can carry in \<open>e.value\<close>: what a JSON
  message decodes to.
\<close>

datatype pyvalue =
    PyNone
  | PyBool bool
  | PyInt int
  | PyFloat pyfloat
  | PyStr string
  | PyList "pyvalue list"
  | PyDict "(string \<times> pyvalue) list"

text \<open>
  The built-in \<open>bool(v)\<close>: \<open>None\<close>, zero and the empty containers are false; NaN and
  the infinities are true.
\<close>

fun py_bool :: "pyvalue \<Rightarrow> bool" where
  "py_bool PyNone = False"
| "py_bool (PyBool b) = b"
| "py_bool (PyInt n) = (n \<noteq> 0)"
| "py_bool (PyFloat f) = (f \<noteq> Num 0)"
| "py_bool (PyStr s) = (s \<noteq> [])"
| "py_bool (PyList xs) = (xs \<noteq> [])"
| "py_bool (PyDict kvs) = (kvs \<noteq> [])"

text \<open>
  An integer converts to the nearest double unless it rounds beyond the largest double,
  \<open>2 ^ 1024 - 2 ^ 971\<close>; the first integer that does is \<open>2 ^ 1024 - 2 ^ 970\<close>, and
  \<open>float\<close> then raises \<open>OverflowError\<close>.
\<close>

definition float_int_limit :: int where
  "float_int_limit = 2 ^ 1024 - 2 ^ 970"

text \<open>
  The built-in \<open>float(v)\<close>. The grammar of float literals in strings belongs to the
  interpreter, not to the program, so the conversion of a string is the parameter
  \<open>str_to_float\<close>: \<open>None\<close> for a string that \<open>float\<close> rejects with \<open>ValueError\<close>,
  otherwise the float it denotes (which can be an infinity or NaN, as for
  \<open>float("inf")\<close> and \<open>float("nan")\<close>).
\<close>

fun py_float :: "(string \<Rightarrow> pyfloat option) \<Rightarrow> pyvalue \<Rightarrow> py_error + pyfloat" where
  "py_float str_to_float PyNone = Inl TypeError"
| "py_float str_to_float (PyBool b) = Inr (Num (if b then 1 else 0))"
| "py_float str_to_float (PyInt n) =
     (if float_int_limit \<le> \<bar>n\<bar> then Inl OverflowError else Inr (round_double (of_int n)))"
| "py_float str_to_float (PyFloat f) = Inr f"
| "py_float str_to_float (PyStr s) =
     (case str_to_float s of None \<Rightarrow> Inl ValueError | Some f \<Rightarrow> Inr f)"
| "py_float str_to_float (PyList xs) = Inl TypeError"
| "py_float str_to_float (PyDict kvs) = Inl TypeError"

section \<open>Outcomes of procedures\<close>

text \<open>
  A procedure that mutates objects either returns, leaving the objects in a new state
  (\<open>Inr\<close>), or raises an exception (\<open>Inl\<close>); the objects then stay as they were when the
  exception was raised.
\<close>

type_synonym 'w outcome = "(py_error \<times> 'w) + 'w"

definition raised :: "'w outcome \<Rightarrow> py_error option" where
  "raised r = (case r of Inl (err, w) \<Rightarrow> Some err | Inr w \<Rightarrow> None)"

definition world_of :: "'w outcome \<Rightarrow> 'w" where
  "world_of r = (case r of Inl (err, w) \<Rightarrow> w | Inr w \<Rightarrow> w)"

section \<open>The domain layer\<close>

text \<open>Class \<open>DroidState\<close>: the logical state of the LED behaviour.\<close>

record DroidState =
  enabled :: bool
  flash_rate_hz :: pyfloat

definition DroidState_init :: "bool \<Rightarrow> pyfloat \<Rightarrow> DroidState" where
  "DroidState_init en rate = \<lparr>enabled = en, flash_rate_hz = rate\<rparr>"

text \<open>
  The device \<open>gpiozero.LED\<close>, as far as the program uses it: the pin it is bound to and
  the waveform that was commanded last. \<open>off()\<close> stops a running blink and holds the pin
  low; \<open>blink(on_time, off_time, background=True)\<close> replaces whatever ran before by a
  repeating cycle and returns at once.
\<close>

datatype LED_waveform = STEADY_OFF | BLINKING pyfloat pyfloat

record LED =
  pin :: int
  waveform :: LED_waveform

definition LED_init :: "int \<Rightarrow> LED" where
  "LED_init gpio_pin = \<lparr>pin = gpio_pin, waveform = STEADY_OFF\<rparr>"

definition LED_off :: "LED \<Rightarrow> LED" where
  "LED_off dev = dev\<lparr>waveform := STEADY_OFF\<rparr>"

definition LED_blink :: "pyfloat \<Rightarrow> pyfloat \<Rightarrow> LED \<Rightarrow> LED" where
  "LED_blink on_time off_time dev = dev\<lparr>waveform := BLINKING on_time off_time\<rparr>"

text \<open>Class \<open>LEDController\<close>.\<close>

record LEDController =
  led :: LED

definition LEDController_init :: "int \<Rightarrow> LEDController" where
  "LEDController_init gpio_pin = \<lparr>led = LED_init gpio_pin\<rparr>"

text \<open>
  \<open>LEDController.apply_state(self, state)\<close>. Both objects are passed by reference, so
  the model returns both as they are after the call.
\<close>

definition apply_state ::
  "LEDController \<Rightarrow> DroidState \<Rightarrow> (LEDController \<times> DroidState) outcome" where
  "apply_state self st =
     (if \<not> enabled st \<or> float_le (flash_rate_hz st) (Num 0)
      then Inr (self\<lparr>led := LED_off (led self)\<rparr>, st)
      else
        case py_truediv (Num 1) (flash_rate_hz st) of
          Inl err \<Rightarrow> Inl (err, (self, st))
        | Inr period \<Rightarrow>
            (case py_truediv period (Num 2) of
               Inl err \<Rightarrow> Inl (err, (self, st))
             | Inr on_time \<Rightarrow>
                 (case py_truediv period (Num 2) of
                    Inl err \<Rightarrow> Inl (err, (self, st))
                  | Inr off_time \<Rightarrow>
                      Inr (self\<lparr>led := LED_blink on_time off_time (led self)\<rparr>, st))))"

section \<open>The global objects and the interaction layer\<close>

text \<open>The two module-level objects \<open>state\<close> and \<open>led_controller\<close>.\<close>

record App =
  state :: DroidState
  led_controller :: LEDController

definition App_init :: App where
  "App_init = \<lparr>state = DroidState_init False (Num 1),
               led_controller = LEDController_init 17\<rparr>"

definition update_hardware :: "App \<Rightarrow> App outcome" where
  "update_hardware app =
     (case apply_state (led_controller app) (state app) of
        Inl (err, (c, s)) \<Rightarrow> Inl (err, app\<lparr>state := s, led_controller := c\<rparr>)
      | Inr (c, s) \<Rightarrow> Inr (app\<lparr>state := s, led_controller := c\<rparr>))"

text \<open>The argument \<open>e\<close> of an event handler; the handlers read \<open>e.value\<close> only.\<close>

record ChangeEvent =
  e_value :: pyvalue

definition on_toggle_change :: "ChangeEvent \<Rightarrow> App \<Rightarrow> App outcome" where
  "on_toggle_change e app =
     update_hardware (app\<lparr>state := (state app)\<lparr>enabled := py_bool (e_value e)\<rparr>\<rparr>)"

text \<open>
  The \<open>try\<close> statement of \<open>on_rate_change\<close>: \<open>TypeError\<close> and \<open>ValueError\<close> are
  caught and give \<open>0.0\<close>; any other exception propagates.
\<close>

definition rate_of_event ::
  "(string \<Rightarrow> pyfloat option) \<Rightarrow> ChangeEvent \<Rightarrow> py_error + pyfloat" where
  "rate_of_event str_to_float e =
     (case (if e_value e \<noteq> PyNone then py_float str_to_float (e_value e) else Inr (Num 0)) of
        Inl err \<Rightarrow> if err = TypeError \<or> err = ValueError then Inr (Num 0) else Inl err
      | Inr v \<Rightarrow> Inr v)"

text \<open>The two \<open>if\<close> statements of \<open>on_rate_change\<close> that clamp the value.\<close>

definition clamp_rate :: "pyfloat \<Rightarrow> pyfloat" where
  "clamp_rate v =
     (let v1 = (if float_lt v (Num 0) then Num 0 else v);
          v2 = (if float_gt v1 (Num 50) then Num 50 else v1)
      in v2)"

definition on_rate_change ::
  "(string \<Rightarrow> pyfloat option) \<Rightarrow> ChangeEvent \<Rightarrow> App \<Rightarrow> App outcome" where
  "on_rate_change str_to_float e app =
     (case rate_of_event str_to_float e of
        Inl err \<Rightarrow> Inl (err, app)
      | Inr v \<Rightarrow>
          update_hardware (app\<lparr>state := (state app)\<lparr>flash_rate_hz := clamp_rate v\<rparr>\<rparr>))"

section \<open>Predicates of the specification\<close>

text \<open>
  Follows the specification's words, not the source: an input is non-numeric when it does
  not parse to a number, that is, a string that \<open>float\<close> rejects or a value of a type
  that is not a number. An absent input (\<open>None\<close>) is named separately by the
  specification and is not counted here.
\<close>

fun non_numeric :: "(string \<Rightarrow> pyfloat option) \<Rightarrow> pyvalue \<Rightarrow> bool" where
  "non_numeric str_to_float (PyStr s) = (str_to_float s = None)"
| "non_numeric str_to_float (PyList xs) = True"
| "non_numeric str_to_float (PyDict kvs) = True"
| "non_numeric str_to_float v = False"

text \<open>
  Follows the specification's words: the stored rate lies in the closed interval from 0 to
  50.
\<close>

definition rate_in_range :: "DroidState \<Rightarrow> bool" where
  "rate_in_range st =
     (float_le (Num 0) (flash_rate_hz st) \<and> float_le (flash_rate_hz st) (Num 50))"

section \<open>Properties of rounding\<close>

text \<open>
  \<open>float_exponent\<close> is the binary exponent: it brackets a positive real between two
  consecutive powers of two, and it is the only integer that does.
\<close>

lemma float_exponent_bounds:
  assumes "0 < a"
  shows "2 powi float_exponent a \<le> a \<and> a < 2 powi (float_exponent a + 1)"
proof (cases "1 \<le> a")
  case True
  define n where "n = \<lfloor>a\<rfloor>"
  have n: "0 < n" using True by (simp add: n_def)
  have e: "float_exponent a = bitlen n - 1" using True by (simp add: float_exponent_def n_def)
  have k: "0 \<le> bitlen n - 1" using n by (simp add: bitlen_alt_def)
  from bitlen_bounds [OF n] have lo: "2 ^ nat (bitlen n - 1) \<le> n" and hi: "n + 1 \<le> 2 ^ nat (bitlen n)"
    by auto
  have "(2::real) ^ nat (bitlen n - 1) \<le> of_int n"
    using lo by (metis of_int_le_iff of_int_numeral of_int_power)
  also have "\<dots> \<le> a" by (simp add: n_def)
  finally have 1: "2 powi (bitlen n - 1) \<le> a" using k by (simp add: power_int_nonneg_exp)
  have "a < of_int (n + 1)" by (simp add: n_def)
  also have "\<dots> \<le> (2::real) ^ nat (bitlen n)"
    using hi by (metis of_int_le_iff of_int_numeral of_int_power)
  finally have 2: "a < 2 powi (bitlen n - 1 + 1)" using k by (simp add: power_int_nonneg_exp)
  show ?thesis using 1 2 e by simp
next
  case False
  define b where "b = 1 / a"
  have b: "1 < b" using False assms by (simp add: b_def)
  define m where "m = \<lceil>b\<rceil> - 1"
  have m: "0 < m" using b by (simp add: m_def)
  have e: "float_exponent a = - bitlen m" using False by (simp add: float_exponent_def m_def b_def)
  have k: "1 \<le> bitlen m" using m by (simp add: bitlen_alt_def)
  from bitlen_bounds [OF m] have lo: "2 ^ nat (bitlen m - 1) \<le> m" and hi: "m + 1 \<le> 2 ^ nat (bitlen m)"
    by auto
  have "b \<le> of_int (m + 1)" by (simp add: m_def)
  also have "\<dots> \<le> (2::real) ^ nat (bitlen m)"
    using hi by (metis of_int_le_iff of_int_numeral of_int_power)
  finally have "b \<le> 2 powi (bitlen m)" using k by (simp add: power_int_nonneg_exp)
  then have 1: "2 powi (- bitlen m) \<le> a"
    using assms by (simp add: b_def power_int_minus field_simps)
  have "(2::real) ^ nat (bitlen m - 1) \<le> of_int m"
    using lo by (metis of_int_le_iff of_int_numeral of_int_power)
  also have "\<dots> < b" by (simp add: m_def) linarith
  finally have "2 powi (bitlen m - 1) < b" using k by (simp add: power_int_nonneg_exp)
  then have "a * 2 powi (bitlen m - 1) < 1"
    using assms by (simp add: b_def field_simps)
  then have "a < 1 / 2 powi (bitlen m - 1)"
    by (simp add: pos_less_divide_eq)
  also have "1 / 2 powi (bitlen m - 1) = (2::real) powi (- (bitlen m - 1))"
    by (simp only: power_int_minus_divide)
  finally have 2: "a < 2 powi (- bitlen m + 1)" by simp
  show ?thesis using 1 2 e by simp
qed

lemma pow2_less_iff: "(2::real) powi m < 2 powi n \<longleftrightarrow> m < n"
proof
  assume "(2::real) powi m < 2 powi n"
  show "m < n"
  proof (rule ccontr)
    assume "\<not> m < n"
    then have "n \<le> m" by simp
    then have "(2::real) powi n \<le> 2 powi m" by (intro power_int_increasing) auto
    with \<open>(2::real) powi m < 2 powi n\<close> show False by simp
  qed
next
  assume "m < n"
  then show "(2::real) powi m < 2 powi n" by (intro power_int_strict_increasing) auto
qed

lemma pow2_le_iff: "(2::real) powi m \<le> 2 powi n \<longleftrightarrow> m \<le> n"
  using pow2_less_iff [of n m] by (simp add: not_less [symmetric])

lemma float_exponent_eqI:
  assumes "0 < a" and "2 powi e \<le> a" and "a < 2 powi (e + 1)"
  shows "float_exponent a = e"
proof -
  from float_exponent_bounds [OF assms(1)]
  have lo: "2 powi float_exponent a \<le> a" and hi: "a < 2 powi (float_exponent a + 1)" by auto
  have "(2::real) powi e < 2 powi (float_exponent a + 1)" using assms(2) hi by linarith
  then have 1: "e < float_exponent a + 1" by (simp only: pow2_less_iff)
  have "(2::real) powi float_exponent a < 2 powi (e + 1)" using lo assms(3) by linarith
  then have 2: "float_exponent a < e + 1" by (simp only: pow2_less_iff)
  show ?thesis using 1 2 by linarith
qed

text \<open>
  Rounding to an integer leaves integers alone, moves a value by at most one half, and
  respects integer bounds; a value at least half-way to an even integer reaches it.
\<close>

lemma round_half_even_of_int: "round_half_even (of_int n) = n"
  by (simp add: round_half_even_def)

lemma round_half_even_error: "\<bar>of_int (round_half_even m) - m\<bar> \<le> 1 / 2"
  unfolding round_half_even_def Let_def by (auto split: if_splits)

lemma round_half_even_ge: "of_int n \<le> m \<Longrightarrow> n \<le> round_half_even m"
proof -
  assume "of_int n \<le> m"
  then have "n \<le> \<lfloor>m\<rfloor>" by (simp add: le_floor_iff)
  then show ?thesis unfolding round_half_even_def Let_def by (auto split: if_splits)
qed

lemma round_half_even_le: "m \<le> of_int n \<Longrightarrow> round_half_even m \<le> n"
proof (cases "m = of_int n")
  case True
  then show ?thesis by (simp add: round_half_even_of_int)
next
  case False
  assume "m \<le> of_int n"
  with False have "m < of_int n" by simp
  then have "\<lfloor>m\<rfloor> < n" by (simp add: floor_less_iff)
  then show ?thesis unfolding round_half_even_def Let_def by (auto split: if_splits)
qed

lemma round_half_even_less: "m < of_int n - 1 / 2 \<Longrightarrow> round_half_even m < n"
proof -
  assume a: "m < of_int n - 1 / 2"
  then have "m < of_int n" by simp
  then have f: "\<lfloor>m\<rfloor> < n" by (simp add: floor_less_iff)
  show ?thesis
  proof (cases "\<lfloor>m\<rfloor> = n - 1")
    case True
    then have "m - of_int \<lfloor>m\<rfloor> < 1 / 2" using a by simp
    then show ?thesis using f unfolding round_half_even_def Let_def by simp
  next
    case False
    then have "\<lfloor>m\<rfloor> + 1 < n" using f by simp
    then show ?thesis unfolding round_half_even_def Let_def by (auto split: if_splits)
  qed
qed

lemma round_half_even_tie_up:
  assumes "of_int n - 1 / 2 \<le> m" and "even n"
  shows "n \<le> round_half_even m"
proof (cases "n \<le> \<lfloor>m\<rfloor>")
  case True
  then show ?thesis unfolding round_half_even_def Let_def by (auto split: if_splits)
next
  case False
  have "of_int (n - 1) \<le> m" using assms(1) by simp
  then have "n - 1 \<le> \<lfloor>m\<rfloor>" by (simp only: le_floor_iff)
  with False have f: "\<lfloor>m\<rfloor> = n - 1" by simp
  then have d: "1 / 2 \<le> m - of_int \<lfloor>m\<rfloor>" using assms(1) by simp
  have odd: "odd \<lfloor>m\<rfloor>" using f assms(2) by simp
  show ?thesis using f d odd unfolding round_half_even_def Let_def by (auto split: if_splits)
qed


lemma pow2_diff: "(2::real) powi (e - k) = 2 powi e / 2 powi k"
  by (simp add: power_int_diff)

lemma pow2_Suc: "(2::real) powi (e + 1) = 2 * 2 powi e"
  by (simp add: power_int_add)

text \<open>
  At or above \<open>2 ^ -1022\<close> the spacing is \<open>2 ^ (e - 52)\<close>, and a rounded value is an
  integer between \<open>2 ^ 52\<close> and \<open>2 ^ 53\<close> times the spacing; every such product is a
  double and rounds to itself.
\<close>

lemma float_quantum_normal:
  assumes "0 < a" and "2 powi e \<le> a" and "a < 2 powi (e + 1)" and "- 1022 \<le> e"
  shows "float_quantum a = 2 powi e / 2 ^ 52"
proof -
  have "float_exponent a = e" using assms by (intro float_exponent_eqI)
  then show ?thesis using assms(4) by (simp add: float_quantum_def max_def pow2_diff)
qed

lemma round_magnitude_normal:
  assumes "0 < a" and "2 powi e \<le> a" and "a < 2 powi (e + 1)" and "- 1022 \<le> e"
  shows "\<exists>n. 2 ^ 52 \<le> n \<and> n \<le> 2 ^ 53 \<and>
           round_magnitude a = of_int n * (2 powi e / 2 ^ 52) \<and>
           \<bar>of_int n - a * 2 ^ 52 / 2 powi e\<bar> \<le> 1 / 2 \<and>
           n = round_half_even (a * 2 ^ 52 / 2 powi e)"
proof -
  define E :: real where "E = 2 powi e"
  have E: "0 < E" by (simp add: E_def)
  define m where "m = a * 2 ^ 52 / E"
  define n where "n = round_half_even m"
  have q: "float_quantum a = E / 2 ^ 52"
    using float_quantum_normal [OF assms] by (simp add: E_def)
  have lo: "E \<le> a" using assms(2) by (simp add: E_def)
  have hi: "a < 2 * E" using assms(3) by (simp add: E_def pow2_Suc)
  have "of_int (2 ^ 52) \<le> m" using lo E by (simp add: m_def pos_le_divide_eq)
  then have n1: "2 ^ 52 \<le> n" unfolding n_def by (rule round_half_even_ge)
  have "m \<le> of_int (2 ^ 53)" using hi E by (simp add: m_def pos_divide_le_eq)
  then have n2: "n \<le> 2 ^ 53" unfolding n_def by (rule round_half_even_le)
  have "a / float_quantum a = m" by (simp add: q m_def)
  then have r: "round_magnitude a = of_int n * (E / 2 ^ 52)"
    by (simp add: round_magnitude_def n_def q)
  have err: "\<bar>of_int n - m\<bar> \<le> 1 / 2" unfolding n_def by (rule round_half_even_error)
  show ?thesis using n1 n2 r err by (auto simp add: E_def m_def n_def)
qed

lemma round_magnitude_representable:
  assumes "2 ^ 52 \<le> n" and "n \<le> 2 ^ 53" and "- 1022 \<le> e"
  shows "round_magnitude (of_int n * (2 powi e / 2 ^ 52)) = of_int n * (2 powi e / 2 ^ 52)"
proof -
  define E :: real where "E = 2 powi e"
  have E: "0 < E" by (simp add: E_def)
  define y where "y = of_int n * (E / 2 ^ 52)"
  have n1: "(2::real) ^ 52 \<le> of_int n"
    using assms(1) by (metis of_int_le_iff of_int_numeral of_int_power)
  have n2: "of_int n \<le> (2::real) ^ 53"
    using assms(2) by (metis of_int_le_iff of_int_numeral of_int_power)
  have y: "0 < y" using n1 E by (simp add: y_def)
  have ylo: "E \<le> y" using n1 E by (simp add: y_def pos_le_divide_eq mult.commute)
  show ?thesis
  proof (cases "n = 2 ^ 53")
    case True
    then have yv: "y = 2 * E" by (simp add: y_def)
    have 1: "2 powi (e + 1) \<le> y" by (simp add: yv E_def pow2_Suc)
    have yv': "y = 2 powi (e + 1)" by (simp add: yv E_def pow2_Suc)
    have 2: "y < 2 powi (e + 1 + 1)" unfolding yv' by (rule power_int_strict_increasing) auto
    have q: "float_quantum y = 2 powi (e + 1) / 2 ^ 52"
      using y 1 2 assms(3) by (intro float_quantum_normal) auto
    have "y / (2 powi (e + 1) / 2 ^ 52) = of_int (2 ^ 52)" by (simp add: yv')
    then have "round_half_even (y / float_quantum y) = 2 ^ 52"
      unfolding q by (simp only: round_half_even_of_int)
    then have "round_magnitude y = of_int (2 ^ 52) * (2 powi (e + 1) / 2 ^ 52)"
      by (simp only: round_magnitude_def q)
    also have "\<dots> = y" by (simp add: yv')
    finally show ?thesis by (simp add: y_def E_def)
  next
    case False
    then have "n < 2 ^ 53" using assms(2) by simp
    then have "n + 1 \<le> 2 ^ 53" by simp
    then have "of_int (n + 1) \<le> (2::real) ^ 53"
      by (metis of_int_le_iff of_int_numeral of_int_power)
    then have n3: "of_int n < (2::real) ^ 53" by simp
    have yhi: "y < 2 powi (e + 1)" using n3 E by (simp add: y_def pow2_Suc E_def pos_divide_less_eq mult.commute)
    have q: "float_quantum y = 2 powi e / 2 ^ 52"
      using y ylo yhi assms(3) by (intro float_quantum_normal) (auto simp add: E_def)
    have "y / (2 powi e / 2 ^ 52) = of_int n" using E by (simp add: y_def E_def)
    then have "round_half_even (y / float_quantum y) = n"
      unfolding q by (simp only: round_half_even_of_int)
    then have "round_magnitude y = of_int n * (2 powi e / 2 ^ 52)"
      by (simp only: round_magnitude_def q)
    then show ?thesis by (simp add: y_def E_def)
  qed
qed


text \<open>
  Halving commutes with rounding while the half stays at or above \<open>2 ^ -1022\<close>, and
  rounding moves a value by at most the relative error \<open>2 ^ -53\<close>.
\<close>

lemma round_magnitude_half:
  assumes "0 < a" and "2 powi e \<le> a" and "a < 2 powi (e + 1)" and "- 1021 \<le> e"
  shows "round_magnitude (a / 2) = round_magnitude a / 2"
proof -
  have h: "(2::real) powi (e - 1) = 2 powi e / 2" by (simp add: pow2_diff)
  have e1: "- 1022 \<le> e" and e2: "- 1022 \<le> e - 1" using assms(4) by auto
  have lo: "2 powi (e - 1) \<le> a / 2" using assms(2) by (simp add: h)
  have hi: "a / 2 < 2 powi (e - 1 + 1)" using assms(3) by (simp add: pow2_Suc)
  have pos: "0 < a / 2" using assms(1) by simp
  from round_magnitude_normal [OF assms(1-3) e1] obtain n where
    n: "round_magnitude a = of_int n * (2 powi e / 2 ^ 52)"
       "n = round_half_even (a * 2 ^ 52 / 2 powi e)" by blast
  from round_magnitude_normal [OF pos lo hi e2] obtain k where
    k: "round_magnitude (a / 2) = of_int k * (2 powi (e - 1) / 2 ^ 52)"
       "k = round_half_even (a / 2 * 2 ^ 52 / 2 powi (e - 1))" by blast
  have "a / 2 * 2 ^ 52 / 2 powi (e - 1) = a * 2 ^ 52 / 2 powi e" by (simp add: h)
  then have "k = n" using n(2) k(2) by simp
  then show ?thesis using n(1) k(1) by (simp add: h)
qed

lemma round_magnitude_half_fixed:
  assumes "0 < a" and "2 powi e \<le> a" and "a < 2 powi (e + 1)" and "- 1021 \<le> e"
  shows "round_magnitude (round_magnitude a / 2) = round_magnitude a / 2"
proof -
  have h: "(2::real) powi (e - 1) = 2 powi e / 2" by (simp add: pow2_diff)
  have e1: "- 1022 \<le> e" and e2: "- 1022 \<le> e - 1" using assms(4) by auto
  from round_magnitude_normal [OF assms(1-3) e1] obtain n where
    n: "2 ^ 52 \<le> n" "n \<le> 2 ^ 53" "round_magnitude a = of_int n * (2 powi e / 2 ^ 52)" by blast
  have "round_magnitude a / 2 = of_int n * (2 powi (e - 1) / 2 ^ 52)"
    by (simp add: n(3) h)
  then show ?thesis
    by (simp only: round_magnitude_representable [OF n(1) n(2) e2])
qed

lemma round_magnitude_ge_pow2:
  assumes "0 < a" and "2 powi e \<le> a" and "a < 2 powi (e + 1)" and "- 1022 \<le> e"
  shows "2 powi e \<le> round_magnitude a"
proof -
  from round_magnitude_normal [OF assms] obtain n where
    n: "2 ^ 52 \<le> n" "round_magnitude a = of_int n * (2 powi e / 2 ^ 52)" by blast
  have n1: "(2::real) ^ 52 \<le> of_int n"
    using n(1) by (metis of_int_le_iff of_int_numeral of_int_power)
  have "0 < (2::real) powi e" by simp
  then have "(2::real) ^ 52 * (2 powi e / 2 ^ 52) \<le> of_int n * (2 powi e / 2 ^ 52)"
    using n1 by (intro mult_right_mono) auto
  then show ?thesis by (simp add: n(2))
qed

lemma round_magnitude_error:
  assumes "0 < a" and "2 powi e \<le> a" and "a < 2 powi (e + 1)" and "- 1022 \<le> e"
  shows "\<bar>round_magnitude a - a\<bar> \<le> a / 2 ^ 53"
proof -
  define E :: real where "E = 2 powi e"
  have E: "0 < E" by (simp add: E_def)
  from round_magnitude_normal [OF assms] obtain n where
    n: "round_magnitude a = of_int n * (E / 2 ^ 52)"
       "\<bar>of_int n - a * 2 ^ 52 / E\<bar> \<le> 1 / 2" unfolding E_def by blast
  have "round_magnitude a - a = (of_int n - a * 2 ^ 52 / E) * (E / 2 ^ 52)"
    using E by (simp add: n(1) field_simps)
  then have "\<bar>round_magnitude a - a\<bar> = \<bar>of_int n - a * 2 ^ 52 / E\<bar> * \<bar>E / 2 ^ 52\<bar>"
    by (simp only: abs_mult)
  also have "\<bar>E / 2 ^ 52\<bar> = E / 2 ^ 52" using E by simp
  finally have "\<bar>round_magnitude a - a\<bar> = \<bar>of_int n - a * 2 ^ 52 / E\<bar> * (E / 2 ^ 52)" .
  also have "\<dots> \<le> 1 / 2 * (E / 2 ^ 52)"
    using n(2) E by (intro mult_right_mono) auto
  also have "\<dots> = E / 2 ^ 53" by simp
  also have "\<dots> \<le> a / 2 ^ 53" using assms(2) by (simp add: E_def)
  finally show ?thesis .
qed


text \<open>
  The overflow threshold: rounding stays below \<open>2 ^ 1024\<close> exactly for magnitudes below
  \<open>2 ^ 1024 - 2 ^ 970\<close>.
\<close>

lemma of_int_le_pow2: "n \<le> 2 ^ k \<Longrightarrow> real_of_int n \<le> 2 ^ k"
  by (metis of_int_le_iff of_int_numeral of_int_power)

lemma pow2_le_of_int: "2 ^ k \<le> n \<Longrightarrow> 2 ^ k \<le> real_of_int n"
  by (metis of_int_le_iff of_int_numeral of_int_power)

lemma round_magnitude_finite:
  assumes "2 powi (- 1022) \<le> a" and "a < 2 ^ 1024 - 2 ^ 970"
  shows "round_magnitude a < 2 ^ 1024"
proof -
  have pos: "0 < a"
  proof -
    have "0 < (2::real) powi (- 1022)" by (rule zero_less_power_int) simp
    with assms(1) show ?thesis by linarith
  qed
  define e where "e = float_exponent a"
  from float_exponent_bounds [OF pos]
  have lo: "2 powi e \<le> a" and hi: "a < 2 powi (e + 1)" by (auto simp add: e_def)
  have "(2::real) powi (- 1022) < 2 powi (e + 1)" using assms(1) hi by linarith
  then have "- 1022 < e + 1" by (simp only: pow2_less_iff)
  then have e1: "- 1022 \<le> e" by simp
  have "a < (2::real) powi 1024" using assms(2) by simp
  then have "(2::real) powi e < 2 powi 1024" using lo by linarith
  then have e2: "e < 1024" by (simp only: pow2_less_iff)
  from round_magnitude_normal [OF pos lo hi e1] obtain n where
    n: "n \<le> 2 ^ 53" "round_magnitude a = of_int n * (2 powi e / 2 ^ 52)"
       "n = round_half_even (a * 2 ^ 52 / 2 powi e)" by blast
  show ?thesis
  proof (cases "e = 1023")
    case True
    have E: "(2::real) powi e = 2 ^ 1023" by (simp add: True)
    have "a * 2 ^ 52 / 2 ^ 1023 < of_int (2 ^ 53) - 1 / 2" using assms(2) by simp
    then have "n < 2 ^ 53" unfolding n(3) E by (rule round_half_even_less)
    then have "n \<le> 2 ^ 53 - 1" by simp
    then have "real_of_int n \<le> real_of_int (2 ^ 53 - 1)" by (simp only: of_int_le_iff)
    then have "real_of_int n \<le> 2 ^ 53 - 1" by simp
    then have "of_int n * ((2::real) ^ 1023 / 2 ^ 52) \<le> (2 ^ 53 - 1) * (2 ^ 1023 / 2 ^ 52)"
      by (intro mult_right_mono) auto
    also have "\<dots> < (2::real) ^ 1024" by simp
    finally show ?thesis by (simp only: n(2) E)
  next
    case False
    then have "e + 1 \<le> 1023" using e2 by simp
    then have le: "(2::real) powi (e + 1) \<le> 2 powi 1023" by (simp only: pow2_le_iff)
    have "of_int n * ((2::real) powi e / 2 ^ 52) \<le> 2 ^ 53 * (2 powi e / 2 ^ 52)"
      using of_int_le_pow2 [OF n(1)] by (intro mult_right_mono) auto
    also have "\<dots> = 2 powi (e + 1)" by (simp add: pow2_Suc)
    also have "\<dots> \<le> 2 powi 1023" by (rule le)
    also have "\<dots> < (2::real) ^ 1024" by simp
    finally show ?thesis by (simp only: n(2))
  qed
qed

lemma round_magnitude_overflow:
  assumes "2 ^ 1024 - 2 ^ 970 \<le> a"
  shows "2 ^ 1024 \<le> round_magnitude a"
proof -
  have pos: "0 < a" using assms by simp
  define e where "e = float_exponent a"
  from float_exponent_bounds [OF pos]
  have lo: "2 powi e \<le> a" and hi: "a < 2 powi (e + 1)" by (auto simp add: e_def)
  have "(2::real) powi 1023 \<le> a" using assms by simp
  then have "(2::real) powi 1023 < 2 powi (e + 1)" using hi by linarith
  then have "1023 < e + 1" by (simp only: pow2_less_iff)
  then have e1: "1023 \<le> e" by simp
  then have e2: "- 1022 \<le> e" by simp
  show ?thesis
  proof (cases "e = 1023")
    case True
    have E: "(2::real) powi e = 2 ^ 1023" by (simp add: True)
    from round_magnitude_normal [OF pos lo hi e2] obtain n where
      n: "round_magnitude a = of_int n * (2 powi e / 2 ^ 52)"
         "n = round_half_even (a * 2 ^ 52 / 2 powi e)" by blast
    have "of_int (2 ^ 53) - 1 / 2 \<le> a * 2 ^ 52 / 2 ^ 1023" using assms by simp
    then have "2 ^ 53 \<le> n" unfolding n(2) E by (rule round_half_even_tie_up) simp
    then have "(2::real) ^ 53 \<le> of_int n" by (rule pow2_le_of_int)
    then have "(2::real) ^ 53 * (2 ^ 1023 / 2 ^ 52) \<le> of_int n * (2 ^ 1023 / 2 ^ 52)"
      by (intro mult_right_mono) auto
    then show ?thesis by (simp add: n(1) E)
  next
    case False
    then have "1024 \<le> e" using e1 by simp
    then have "(2::real) powi 1024 \<le> 2 powi e" by (simp only: pow2_le_iff)
    also have "\<dots> \<le> round_magnitude a" by (rule round_magnitude_ge_pow2 [OF pos lo hi e2])
    finally show ?thesis by simp
  qed
qed

lemma round_double_pos:
  "0 < x \<Longrightarrow> round_magnitude x < 2 ^ 1024 \<Longrightarrow> round_double x = Num (round_magnitude x)"
  by (simp add: round_double_def Let_def)

lemma round_double_overflow:
  assumes "2 ^ 1024 - 2 ^ 970 \<le> x"
  shows "round_double x = PosInf"
proof -
  have "0 < x" using assms by simp
  then show ?thesis
    using round_magnitude_overflow [OF assms] by (simp add: round_double_def Let_def)
qed

lemma round_double_representable:
  assumes "2 ^ 52 \<le> n" and "n \<le> 2 ^ 53" and "- 1022 \<le> e" and "e \<le> 1022"
  shows "round_double (of_int n * (2 powi e / 2 ^ 52)) = Num (of_int n * (2 powi e / 2 ^ 52))"
proof -
  define y where "y = real_of_int n * (2 powi e / 2 ^ 52)"
  have r: "round_magnitude y = y"
    unfolding y_def by (rule round_magnitude_representable [OF assms(1-3)])
  have "0 < real_of_int n" using pow2_le_of_int [OF assms(1)] by simp
  then have pos: "0 < y" by (simp add: y_def)
  have "y \<le> 2 ^ 53 * (2 powi e / 2 ^ 52)"
    unfolding y_def using of_int_le_pow2 [OF assms(2)] by (intro mult_right_mono) auto
  also have "\<dots> = 2 powi (e + 1)" by (simp add: pow2_Suc)
  also have "\<dots> \<le> 2 powi 1023" using assms(4) by (simp only: pow2_le_iff)
  also have "\<dots> < (2::real) ^ 1024" by simp
  finally have "round_magnitude y < 2 ^ 1024" by (simp only: r)
  from round_double_pos [OF pos this] have "round_double y = Num y" by (simp only: r)
  then show ?thesis by (simp only: y_def)
qed

lemma round_double_half: "round_double (1 / 2) = Num (1 / 2)"
  using round_double_representable [of "2 ^ 52" "- 1"] by simp

lemma round_double_quarter: "round_double (1 / 4) = Num (1 / 4)"
  using round_double_representable [of "2 ^ 52" "- 2"] by simp

lemma round_double_75: "round_double 75 = Num 75"
  using round_double_representable [of "75 * 2 ^ 46" 6] by simp

text \<open>
  Dividing 1 by a rate and halving the quotient gives the double nearest to half the exact
  quotient, as long as the quotient is not below \<open>2 ^ -1021\<close> and does not overflow.
\<close>

lemma divide_then_halve:
  assumes "2 powi (- 1021) \<le> a" and "a < 2 ^ 1024 - 2 ^ 970"
  shows "round_double a = Num (round_magnitude a)"
    and "round_double (round_magnitude a / 2) = Num (round_magnitude (a / 2))"
    and "round_double (a / 2) = Num (round_magnitude (a / 2))"
    and "\<bar>round_magnitude (a / 2) - a / 2\<bar> \<le> a / 2 / 2 ^ 53"
proof -
  have pos: "0 < a"
  proof -
    have "0 < (2::real) powi (- 1021)" by (rule zero_less_power_int) simp
    with assms(1) show ?thesis by linarith
  qed
  define e where "e = float_exponent a"
  from float_exponent_bounds [OF pos]
  have lo: "2 powi e \<le> a" and hi: "a < 2 powi (e + 1)" by (auto simp add: e_def)
  have "(2::real) powi (- 1021) < 2 powi (e + 1)" using assms(1) hi by linarith
  then have "- 1021 < e + 1" by (simp only: pow2_less_iff)
  then have e1: "- 1021 \<le> e" and e2: "- 1022 \<le> e" and e3: "- 1022 \<le> e - 1" by auto
  have "(2::real) powi (- 1022) \<le> 2 powi (- 1021)" by (simp only: pow2_le_iff)
  then have a1022: "2 powi (- 1022) \<le> a" using assms(1) by linarith
  have fin: "round_magnitude a < 2 ^ 1024" by (rule round_magnitude_finite [OF a1022 assms(2)])
  show 1: "round_double a = Num (round_magnitude a)" by (rule round_double_pos [OF pos fin])
  have half: "round_magnitude (a / 2) = round_magnitude a / 2"
    by (rule round_magnitude_half [OF pos lo hi e1])
  have fixed: "round_magnitude (round_magnitude a / 2) = round_magnitude a / 2"
    by (rule round_magnitude_half_fixed [OF pos lo hi e1])
  have "0 < (2::real) powi e" by simp
  then have ppos: "0 < round_magnitude a"
    using round_magnitude_ge_pow2 [OF pos lo hi e2] by linarith
  have pfin: "round_magnitude a / 2 < 2 ^ 1024" using fin ppos by simp
  have ppos2: "0 < round_magnitude a / 2" using ppos by simp
  have pfin2: "round_magnitude (round_magnitude a / 2) < 2 ^ 1024"
    using pfin by (simp only: fixed)
  have "round_double (round_magnitude a / 2) = Num (round_magnitude (round_magnitude a / 2))"
    by (rule round_double_pos [OF ppos2 pfin2])
  then show "round_double (round_magnitude a / 2) = Num (round_magnitude (a / 2))"
    by (simp only: fixed half)
  have "round_magnitude (a / 2) < 2 ^ 1024" using pfin by (simp only: half)
  then show "round_double (a / 2) = Num (round_magnitude (a / 2))"
    using pos by (intro round_double_pos) simp_all
  have h: "(2::real) powi (e - 1) = 2 powi e / 2" by (simp add: pow2_diff)
  have lo': "2 powi (e - 1) \<le> a / 2" using lo by (simp add: h)
  have hi': "a / 2 < 2 powi (e - 1 + 1)" using hi by (simp add: pow2_Suc)
  have pos': "0 < a / 2" using pos by simp
  show "\<bar>round_magnitude (a / 2) - a / 2\<bar> \<le> a / 2 / 2 ^ 53"
    by (rule round_magnitude_error [OF pos' lo' hi' e3])
qed

section \<open>Properties of \<open>apply_state\<close>\<close>

lemma apply_state_off:
  "\<not> enabled st \<or> float_le (flash_rate_hz st) (Num 0) \<Longrightarrow>
   apply_state self st = Inr (self\<lparr>led := (led self)\<lparr>waveform := STEADY_OFF\<rparr>\<rparr>, st)"
  by (simp add: apply_state_def LED_off_def)

text \<open>
  The call always returns: the only division whose divisor can be zero is guarded by the
  test on the rate, and the second divisor is the constant 2. The waveform it commands
  depends on the snapshot only.
\<close>

lemma py_truediv_by_two: "\<exists>d. py_truediv a (Num 2) = Inr d"
  by (cases a) simp_all

lemma py_truediv_one_by_positive:
  "\<not> float_le x (Num 0) \<Longrightarrow> \<exists>p. py_truediv (Num 1) x = Inr p"
  by (cases x) auto

lemma apply_state_shape:
  "\<exists>w. \<forall>self. apply_state self st = Inr (self\<lparr>led := (led self)\<lparr>waveform := w\<rparr>\<rparr>, st)"
proof (cases "\<not> enabled st \<or> float_le (flash_rate_hz st) (Num 0)")
  case True
  then show ?thesis using apply_state_off [of st] by blast
next
  case False
  then have "\<not> float_le (flash_rate_hz st) (Num 0)" by simp
  then obtain p where p: "py_truediv (Num 1) (flash_rate_hz st) = Inr p"
    using py_truediv_one_by_positive by blast
  obtain d where d: "py_truediv p (Num 2) = Inr d"
    using py_truediv_by_two by blast
  have "\<forall>self. apply_state self st =
          Inr (self\<lparr>led := (led self)\<lparr>waveform := BLINKING d d\<rparr>\<rparr>, st)"
    using False p d by (simp add: apply_state_def LED_blink_def)
  then show ?thesis by blast
qed

lemma apply_state_Inr: "\<exists>c. apply_state self st = Inr (c, st)"
  using apply_state_shape [of st] by blast

lemma apply_state_keeps_state: "snd (world_of (apply_state self st)) = st"
  using apply_state_Inr [of self st] by (auto simp add: world_of_def)

lemma update_hardware_returns: "raised (update_hardware app) = None"
  using apply_state_Inr [of "led_controller app" "state app"]
  by (auto simp add: update_hardware_def raised_def)

lemma update_hardware_keeps_state: "state (world_of (update_hardware app)) = state app"
  using apply_state_Inr [of "led_controller app" "state app"]
  by (auto simp add: update_hardware_def world_of_def)

text \<open>
  The exact claim that every enabled snapshot with a rate \<open>r > 0\<close> blinks with
  durations \<open>1 / (2 r)\<close> fails where \<open>1.0 / r\<close> overflows. At the subnormal rate
  \<open>r = 2 ^ -1024\<close>, which is positive and below 50, the quotient \<open>1.0 / r\<close> is
  \<open>inf\<close>, so both durations are \<open>inf\<close>, although \<open>1 / (2 r) = 2 ^ 1023\<close> is a
  finite double.
\<close>

theorem apply_state_blinking_counterexample:
  "enabled (DroidState_init True (Num (1 / 2 ^ 1024))) \<and>
   flash_rate_hz (DroidState_init True (Num (1 / 2 ^ 1024))) = Num (1 / 2 ^ 1024) \<and>
   (0::real) < 1 / 2 ^ 1024 \<and>
   apply_state (LEDController_init 17) (DroidState_init True (Num (1 / 2 ^ 1024))) =
     Inr (\<lparr>led = \<lparr>pin = 17, waveform = BLINKING PosInf PosInf\<rparr>\<rparr>,
          DroidState_init True (Num (1 / 2 ^ 1024))) \<and>
   apply_state (LEDController_init 17) (DroidState_init True (Num (1 / 2 ^ 1024))) \<noteq>
     Inr (\<lparr>led = \<lparr>pin = 17, waveform =
            BLINKING (Num (1 / (2 * (1 / 2 ^ 1024)))) (Num (1 / (2 * (1 / 2 ^ 1024))))\<rparr>\<rparr>,
          DroidState_init True (Num (1 / 2 ^ 1024)))"
proof -
  have "round_double (2 ^ 1024) = PosInf" by (rule round_double_overflow) simp
  then show ?thesis
    by (simp add: apply_state_def LED_blink_def DroidState_init_def LEDController_init_def
        LED_init_def)
qed

text \<open>
  C1 (amended). When the snapshot is enabled and its rate is a number \<open>r\<close> with
  \<open>1 / (2 ^ 1024 - 2 ^ 970) < r <= 2 ^ 1021\<close> (so that \<open>1.0 / r\<close> neither overflows
  nor falls below \<open>2 ^ -1021\<close>), \<open>apply_state\<close> returns and leaves the LED blinking
  with on-time and off-time both equal to the double nearest to \<open>1 / (2 r)\<close>; that double
  is finite and within the relative error \<open>2 ^ -53\<close> of \<open>1 / (2 r)\<close>. The pin and the
  snapshot are as before.
\<close>

theorem apply_state_blinking_rounded:
  assumes "enabled st" and "flash_rate_hz st = Num r"
    and "1 / (2 ^ 1024 - 2 ^ 970) < r" and "r \<le> 2 ^ 1021"
  shows "apply_state self st =
           Inr (self\<lparr>led := (led self)\<lparr>waveform :=
                  BLINKING (round_double (1 / (2 * r))) (round_double (1 / (2 * r)))\<rparr>\<rparr>, st) \<and>
         round_double (1 / (2 * r)) = Num (round_magnitude (1 / (2 * r))) \<and>
         \<bar>round_magnitude (1 / (2 * r)) - 1 / (2 * r)\<bar> \<le> 1 / (2 * r) / 2 ^ 53"
proof -
  have L: "(0::real) < 2 ^ 1024 - 2 ^ 970" by simp
  then have "(0::real) < 1 / (2 ^ 1024 - 2 ^ 970)" by (simp only: zero_less_divide_1_iff)
  with assms(3) have r: "0 < r" by linarith
  have "1 < r * (2 ^ 1024 - 2 ^ 970)"
    using assms(3) L by (simp only: pos_divide_less_eq)
  then have hi: "1 / r < 2 ^ 1024 - 2 ^ 970"
    using r by (simp add: pos_divide_less_eq mult.commute)
  have "1 / (2::real) ^ 1021 \<le> 1 / r"
    using assms(4) r by (intro divide_left_mono) auto
  moreover have "(2::real) powi (- 1021) = 1 / 2 ^ 1021"
    by (simp add: power_int_minus_divide)
  ultimately have lo: "2 powi (- 1021) \<le> 1 / r" by simp
  have half: "1 / r / 2 = 1 / (2 * r)" by simp
  note dh = divide_then_halve [OF lo hi]
  have period: "py_truediv (Num 1) (Num r) = Inr (Num (round_magnitude (1 / r)))"
    using r dh(1) by simp
  have d2: "round_double (round_magnitude (1 / r) / 2) = Num (round_magnitude (1 / (2 * r)))"
    using dh(2) by (simp only: half)
  have d3: "round_double (1 / (2 * r)) = Num (round_magnitude (1 / (2 * r)))"
    using dh(3) by (simp only: half)
  have "py_truediv (Num (round_magnitude (1 / r))) (Num 2) =
          Inr (round_double (round_magnitude (1 / r) / 2))"
    by simp
  then have on_time: "py_truediv (Num (round_magnitude (1 / r))) (Num 2) =
                        Inr (round_double (1 / (2 * r)))"
    by (simp only: d2 d3)
  have guard: "\<not> float_le (flash_rate_hz st) (Num 0)" using assms(2) r by simp
  have "apply_state self st =
          Inr (self\<lparr>led := (led self)\<lparr>waveform :=
                 BLINKING (round_double (1 / (2 * r))) (round_double (1 / (2 * r)))\<rparr>\<rparr>, st)"
    using assms(1) guard period on_time
    by (simp add: apply_state_def LED_blink_def assms(2))
  moreover note d3
  moreover have "\<bar>round_magnitude (1 / (2 * r)) - 1 / (2 * r)\<bar> \<le> 1 / (2 * r) / 2 ^ 53"
    using dh(4) by (simp only: half)
  ultimately show ?thesis by blast
qed

theorem apply_state_blinking_rounded_witness:
  "enabled (DroidState_init True (Num 2)) \<and>
   flash_rate_hz (DroidState_init True (Num 2)) = Num 2 \<and>
   1 / (2 ^ 1024 - 2 ^ 970) < (2::real) \<and> (2::real) \<le> 2 ^ 1021 \<and>
   apply_state (LEDController_init 17) (DroidState_init True (Num 2)) =
     Inr (\<lparr>led = \<lparr>pin = 17, waveform = BLINKING (Num (1 / 4)) (Num (1 / 4))\<rparr>\<rparr>,
          DroidState_init True (Num 2))"
proof -
  have h1: "enabled (DroidState_init True (Num 2))"
    and h2: "flash_rate_hz (DroidState_init True (Num 2)) = Num 2"
    by (simp_all add: DroidState_init_def)
  have h3: "1 / (2 ^ 1024 - 2 ^ 970) < (2::real)" and h4: "(2::real) \<le> 2 ^ 1021"
    by simp_all
  show ?thesis
    using h1 h2 h3 h4 round_double_quarter
      apply_state_blinking_rounded [OF h1 h2 h3 h4, of "LEDController_init 17"]
    by (simp add: LEDController_init_def LED_init_def)
qed

text \<open>
  C3. When the snapshot is disabled, \<open>apply_state\<close> returns and leaves the LED steadily
  off, whatever the rate is (any number, an infinity or NaN).
\<close>

theorem apply_state_disabled_off:
  "\<not> enabled st \<Longrightarrow>
   apply_state self st = Inr (self\<lparr>led := (led self)\<lparr>waveform := STEADY_OFF\<rparr>\<rparr>, st)"
  by (simp add: apply_state_off)

theorem apply_state_disabled_off_witness:
  "\<not> enabled (state App_init) \<and>
   apply_state (LEDController_init 17) (state App_init) =
     Inr (\<lparr>led = \<lparr>pin = 17, waveform = STEADY_OFF\<rparr>\<rparr>, state App_init)"
  using apply_state_disabled_off [of "state App_init" "LEDController_init 17"]
  by (simp add: App_init_def DroidState_init_def LEDController_init_def LED_init_def)

text \<open>
  C4. When the snapshot is enabled and its rate is \<open><= 0\<close> (zero included),
  \<open>apply_state\<close> leaves the LED steadily off and raises nothing: the division by the rate
  is not reached, so there is no \<open>ZeroDivisionError\<close>.
\<close>

theorem apply_state_nonpositive_off:
  "enabled st \<Longrightarrow> float_le (flash_rate_hz st) (Num 0) \<Longrightarrow>
   apply_state self st = Inr (self\<lparr>led := (led self)\<lparr>waveform := STEADY_OFF\<rparr>\<rparr>, st) \<and>
   raised (apply_state self st) = None"
  by (simp add: apply_state_off raised_def)

theorem apply_state_nonpositive_off_witness:
  "enabled (DroidState_init True (Num 0)) \<and>
   float_le (flash_rate_hz (DroidState_init True (Num 0))) (Num 0) \<and>
   apply_state (LEDController_init 17) (DroidState_init True (Num 0)) =
     Inr (\<lparr>led = \<lparr>pin = 17, waveform = STEADY_OFF\<rparr>\<rparr>, DroidState_init True (Num 0)) \<and>
   raised (apply_state (LEDController_init 17) (DroidState_init True (Num 0))) = None"
  using apply_state_nonpositive_off [of "DroidState_init True (Num 0)" "LEDController_init 17"]
  by (simp add: DroidState_init_def LEDController_init_def LED_init_def raised_def)

text \<open>
  C6. Idempotence: calling \<open>apply_state\<close> a second time, on the controller and the
  snapshot as the first call left them, gives the same outcome as the first call: the same
  mode with the same durations.
\<close>

theorem apply_state_idempotent:
  "(let (self', st') = world_of (apply_state self st) in apply_state self' st') =
   apply_state self st"
proof -
  from apply_state_shape [of st] obtain w where
    w: "\<And>c. apply_state c st = Inr (c\<lparr>led := (led c)\<lparr>waveform := w\<rparr>\<rparr>, st)" by blast
  show ?thesis by (simp add: w world_of_def)
qed

theorem apply_state_idempotent_witness:
  "(let (self', st') = world_of (apply_state (LEDController_init 17) (DroidState_init True (Num 2)))
    in apply_state self' st') =
   Inr (\<lparr>led = \<lparr>pin = 17, waveform = BLINKING (Num (1 / 4)) (Num (1 / 4))\<rparr>\<rparr>,
        DroidState_init True (Num 2))"
  using apply_state_idempotent [of "LEDController_init 17" "DroidState_init True (Num 2)"]
  by (simp add: apply_state_def LED_blink_def DroidState_init_def LEDController_init_def
      LED_init_def round_double_half round_double_quarter)

text \<open>
  C8. Frame property: after \<open>apply_state\<close> the snapshot is the one that was passed in;
  neither \<open>enabled\<close> nor \<open>flash_rate_hz\<close> is changed.
\<close>

theorem apply_state_reads_only:
  "enabled (snd (world_of (apply_state self st))) = enabled st \<and>
   flash_rate_hz (snd (world_of (apply_state self st))) = flash_rate_hz st \<and>
   snd (world_of (apply_state self st)) = st"
  by (simp add: apply_state_keeps_state)

theorem apply_state_reads_only_witness:
  "snd (world_of (apply_state (LEDController_init 17) (DroidState_init True (Num 5)))) =
   \<lparr>enabled = True, flash_rate_hz = Num 5\<rparr>"
  using apply_state_reads_only [of "LEDController_init 17" "DroidState_init True (Num 5)"]
  by (simp add: DroidState_init_def)

section \<open>Properties of the event handlers\<close>

lemma clamp_rate_Num: "clamp_rate (Num n) = Num (max 0 (min 50 n))"
  by (simp add: clamp_rate_def float_gt_def Let_def max_def min_def)

lemma clamp_rate_NaN: "clamp_rate NaN = NaN"
  by (simp add: clamp_rate_def float_gt_def)

lemma clamp_rate_in_range:
  "v \<noteq> NaN \<Longrightarrow> float_le (Num 0) (clamp_rate v) \<and> float_le (clamp_rate v) (Num 50)"
  by (cases v) (auto simp add: clamp_rate_def float_gt_def Let_def)

lemma rate_of_event_parsed:
  "py_float str_to_float (e_value e) = Inr v \<Longrightarrow> rate_of_event str_to_float e = Inr v"
  by (cases "e_value e") (auto simp add: rate_of_event_def)

lemma rate_of_event_invalid:
  "e_value e = PyNone \<or> non_numeric str_to_float (e_value e) \<Longrightarrow>
   rate_of_event str_to_float e = Inr (Num 0)"
  by (cases "e_value e") (auto simp add: rate_of_event_def)

text \<open>
  Once the \<open>try\<close> statement has produced a value, the handler returns and the stored
  rate is that value after the two clamping tests.
\<close>

lemma on_rate_change_stored:
  "rate_of_event str_to_float e = Inr v \<Longrightarrow>
   raised (on_rate_change str_to_float e app) = None \<and>
   flash_rate_hz (state (world_of (on_rate_change str_to_float e app))) = clamp_rate v"
  by (simp add: on_rate_change_def update_hardware_returns update_hardware_keeps_state)

lemma on_toggle_change_keeps_rate:
  "flash_rate_hz (state (world_of (on_toggle_change e app))) = flash_rate_hz (state app)"
  by (simp add: on_toggle_change_def update_hardware_keeps_state)

lemma on_rate_change_keeps_enabled:
  "enabled (state (world_of (on_rate_change str_to_float e app))) = enabled (state app)"
proof (cases "rate_of_event str_to_float e")
  case (Inl err)
  then show ?thesis by (simp add: on_rate_change_def world_of_def)
next
  case (Inr v)
  then show ?thesis by (simp add: on_rate_change_def update_hardware_keeps_state)
qed

text \<open>
  The range of the stored rate is kept by the toggle handler, and by the rate handler for
  every input that does not convert to NaN (also when the conversion raises
  \<open>OverflowError\<close>: the handler then stops before the assignment).
\<close>

lemma on_toggle_change_keeps_range:
  "rate_in_range (state app) \<Longrightarrow> rate_in_range (state (world_of (on_toggle_change e app)))"
  by (simp add: on_toggle_change_def update_hardware_keeps_state rate_in_range_def)

lemma on_rate_change_keeps_range:
  assumes "rate_in_range (state app)"
    and "py_float str_to_float (e_value e) \<noteq> Inr NaN"
  shows "rate_in_range (state (world_of (on_rate_change str_to_float e app)))"
proof (cases "rate_of_event str_to_float e")
  case (Inl err)
  then show ?thesis
    using assms(1) by (simp add: on_rate_change_def world_of_def)
next
  case (Inr v)
  have "v \<noteq> NaN"
    using Inr assms(2)
    by (cases "e_value e")
       (auto simp add: rate_of_event_def split: if_splits sum.splits option.splits)
  then show ?thesis
    using on_rate_change_stored [OF Inr, of app] clamp_rate_in_range [of v]
    by (simp add: rate_in_range_def)
qed

text \<open>
  C2. When \<open>float\<close> converts the input to a number \<open>n\<close>, the rate handler returns and
  the stored rate is exactly \<open>max 0 (min 50 n)\<close>.
\<close>

theorem on_rate_change_stores_clamped:
  "py_float str_to_float (e_value e) = Inr (Num n) \<Longrightarrow>
   raised (on_rate_change str_to_float e app) = None \<and>
   flash_rate_hz (state (world_of (on_rate_change str_to_float e app))) =
     Num (max 0 (min 50 n))"
  using on_rate_change_stored [OF rate_of_event_parsed] by (simp add: clamp_rate_Num)

theorem on_rate_change_stores_clamped_witness:
  "py_float (\<lambda>s. None) (e_value \<lparr>e_value = PyInt 75\<rparr>) = Inr (Num 75) \<and>
   raised (on_rate_change (\<lambda>s. None) \<lparr>e_value = PyInt 75\<rparr> App_init) = None \<and>
   flash_rate_hz (state (world_of (on_rate_change (\<lambda>s. None) \<lparr>e_value = PyInt 75\<rparr> App_init))) =
     Num 50"
proof -
  have h: "py_float (\<lambda>s. None) (e_value \<lparr>e_value = PyInt 75\<rparr>) = Inr (Num 75)"
    by (simp add: float_int_limit_def round_double_75)
  show ?thesis
    using h on_rate_change_stores_clamped [OF h, of App_init] by simp
qed

text \<open>
  On an absent (\<open>None\<close>) or non-numeric input the rate handler raises nothing and the
  stored rate becomes 0.
\<close>

lemma on_rate_change_invalid_input_zero:
  "e_value e = PyNone \<or> non_numeric str_to_float (e_value e) \<Longrightarrow>
   raised (on_rate_change str_to_float e app) = None \<and>
   flash_rate_hz (state (world_of (on_rate_change str_to_float e app))) = Num 0"
  using on_rate_change_stored [OF rate_of_event_invalid] by (simp add: clamp_rate_Num)

text \<open>
  C7. The rate handler is not total. With the integer \<open>2 ^ 1024\<close> as \<open>e.value\<close>,
  \<open>float\<close> raises \<open>OverflowError\<close>; the \<open>except\<close> clause catches \<open>TypeError\<close> and
  \<open>ValueError\<close> only, so the exception reaches the caller. Nothing has been assigned by
  then: the state is as before.
\<close>

theorem on_rate_change_overflow_raises:
  "raised (on_rate_change str_to_float \<lparr>e_value = PyInt (2 ^ 1024)\<rparr> app) =
     Some OverflowError \<and>
   world_of (on_rate_change str_to_float \<lparr>e_value = PyInt (2 ^ 1024)\<rparr> app) = app"
  by (simp add: on_rate_change_def rate_of_event_def float_int_limit_def raised_def
      world_of_def)

theorem on_rate_change_overflow_raises_witness:
  "raised (on_rate_change (\<lambda>s. None) \<lparr>e_value = PyInt (2 ^ 1024)\<rparr> App_init) =
     Some OverflowError"
  using on_rate_change_overflow_raises [of "\<lambda>s. None" App_init] by simp

text \<open>
  C9. When \<open>float\<close> converts the input to NaN, both clamping comparisons
  (\<open>NaN < 0\<close> and \<open>NaN > 50\<close>) are false, the rate handler returns, and the stored rate
  is NaN.
\<close>

theorem on_rate_change_nan_stored:
  "py_float str_to_float (e_value e) = Inr NaN \<Longrightarrow>
   \<not> float_lt NaN (Num 0) \<and> \<not> float_gt NaN (Num 50) \<and>
   raised (on_rate_change str_to_float e app) = None \<and>
   flash_rate_hz (state (world_of (on_rate_change str_to_float e app))) = NaN"
  using on_rate_change_stored [OF rate_of_event_parsed]
  by (simp add: clamp_rate_NaN float_gt_def)

theorem on_rate_change_nan_stored_witness:
  "py_float (\<lambda>s. if s = ''nan'' then Some NaN else None) (e_value \<lparr>e_value = PyStr ''nan''\<rparr>) =
     Inr NaN \<and>
   flash_rate_hz (state (world_of
     (on_rate_change (\<lambda>s. if s = ''nan'' then Some NaN else None)
        \<lparr>e_value = PyStr ''nan''\<rparr> App_init))) = NaN"
proof -
  have h: "py_float (\<lambda>s. if s = ''nan'' then Some NaN else None)
             (e_value \<lparr>e_value = PyStr ''nan''\<rparr>) = Inr NaN"
    by simp
  show ?thesis
    using h on_rate_change_nan_stored [OF h, of App_init] by simp
qed

text \<open>
  C10. The toggle handler leaves \<open>flash_rate_hz\<close> as it was, and the rate handler leaves
  \<open>enabled\<close> as it was, for every input (also one on which the rate handler raises).
\<close>

theorem handlers_cross_field_frame:
  "flash_rate_hz (state (world_of (on_toggle_change e app))) = flash_rate_hz (state app) \<and>
   enabled (state (world_of (on_rate_change str_to_float e' app))) = enabled (state app)"
  by (simp add: on_toggle_change_keeps_rate on_rate_change_keeps_enabled)

theorem handlers_cross_field_frame_witness:
  "flash_rate_hz (state (world_of (on_toggle_change \<lparr>e_value = PyBool True\<rparr> App_init))) = Num 1 \<and>
   enabled (state (world_of (on_rate_change (\<lambda>s. None) \<lparr>e_value = PyInt 3\<rparr> App_init))) = False"
  using handlers_cross_field_frame
    [of "\<lparr>e_value = PyBool True\<rparr>" App_init "\<lambda>s. None" "\<lparr>e_value = PyInt 3\<rparr>"]
  by (simp add: App_init_def DroidState_init_def)

text \<open>
  C5. The invariant that the stored rate always lies between 0 and 50 does not hold: from
  the initial state, whose rate is in range, the rate handler called with the float NaN
  returns normally and leaves NaN as the stored rate, which is outside every interval.
\<close>

theorem on_rate_change_nan_escapes_clamp:
  "rate_in_range (state App_init) \<and>
   raised (on_rate_change str_to_float \<lparr>e_value = PyFloat NaN\<rparr> App_init) = None \<and>
   flash_rate_hz (state (world_of
     (on_rate_change str_to_float \<lparr>e_value = PyFloat NaN\<rparr> App_init))) = NaN \<and>
   \<not> rate_in_range (state (world_of
     (on_rate_change str_to_float \<lparr>e_value = PyFloat NaN\<rparr> App_init)))"
  using on_rate_change_stored [of str_to_float "\<lparr>e_value = PyFloat NaN\<rparr>" NaN App_init]
  by (simp add: rate_in_range_def App_init_def DroidState_init_def rate_of_event_def
      clamp_rate_NaN)

theorem on_rate_change_nan_escapes_clamp_witness:
  "\<not> rate_in_range (state (world_of
     (on_rate_change (\<lambda>s. None) \<lparr>e_value = PyFloat NaN\<rparr> App_init)))"
  using on_rate_change_nan_escapes_clamp [of "\<lambda>s. None"] by simp

end
